theory Spec2Isabelle
  imports Complex_Main
begin

section \<open>The reaction game of \<open>pico_reaction_game.py\<close>\<close>

text \<open>
  The program is one Python file: a reader thread (\<open>serial_reader\<close>) that frames the bytes
  of a serial device into button events, and the game loop (\<open>run_game\<close>) that once per
  frame starts a round, checks the time-out, draws, reads its inputs and judges the action.

  Modelling decisions.
  \<^item> Python \<open>int\<close> is \<open>int\<close>; a Python \<open>str\<close> that the program builds itself is a
    \<open>string\<close>; \<open>bytes\<close> is a \<open>char list\<close> (a \<open>char\<close> is one byte); decoded text is the
    list of its Unicode code points.
  \<^item> Time stamps (\<open>time.time()\<close>, \<open>args.reaction_time\<close>) are Python floats. They are
    modelled as real numbers: rounding, infinities and NaN are outside the model.
  \<^item> \<open>random.choice\<close> takes its draw as an argument; the clock, the keyboard and the
    content of the event queue are inputs of a frame.
  \<^item> Drawing (\<open>stdscr.addstr\<close> and friends) does not change the game state and is left out.
\<close>

subsection \<open>Formatting\<close>

fun digits :: "nat \<Rightarrow> string" where
  "digits n = (if n < 10 then [char_of (48 + n)] else digits (n div 10) @ [char_of (48 + n mod 10)])"

declare digits.simps [simp del]

definition str_int :: "int \<Rightarrow> string" where
  \<comment> \<open>\<open>str(i)\<close>, the text an f-string puts for an int\<close>
  "str_int i = (if i < 0 then CHR ''-'' # digits (nat (- i)) else digits (nat i))"

subsection \<open>Game state\<close>

text \<open>The local variables of \<open>run_game\<close> that survive a frame (lines 83 to 90).\<close>

record game =
  score :: int
  lives :: int
  round_no :: int
  target :: "string option"
  prompt_time :: real
  last_info_msg :: string
  last_error_msg :: string

definition directions :: "string list" where
  "directions = [''UP'', ''DOWN'', ''LEFT'', ''RIGHT'']"

definition initial :: "string \<Rightarrow> game" where
  \<comment> \<open>the argument is \<open>serial_error_msg or ""\<close>\<close>
  "initial err = \<lparr>score = 0, lives = 3, round_no = 0, target = None, prompt_time = 0,
                  last_info_msg = [], last_error_msg = err\<rparr>"

definition random_choice :: "nat \<Rightarrow> 'a list \<Rightarrow> 'a" where
  \<comment> \<open>\<open>random.choice(xs)\<close> on a non-empty list: the element at a draw below \<open>len(xs)\<close>\<close>
  "random_choice r xs = xs ! (r mod length xs)"

subsection \<open>The round engine\<close>

definition start_round :: "real \<Rightarrow> nat \<Rightarrow> game \<Rightarrow> game" where
  \<comment> \<open>lines 96 to 100\<close>
  "start_round t r s =
     (if target s = None \<and> lives s > 0 then
        (let tg = random_choice r directions; n = round_no s + 1
         in s\<lparr>target := Some tg, prompt_time := t, round_no := n,
               last_info_msg := ''Round '' @ str_int n @ ''! Press '' @ tg @ ''!''\<rparr>)
      else s)"

definition check_timeout :: "real \<Rightarrow> real \<Rightarrow> game \<Rightarrow> game" where
  \<comment> \<open>lines 103 to 106\<close>
  "check_timeout max_reaction t s =
     (case target s of
        None \<Rightarrow> s
      | Some tg \<Rightarrow>
          if t - prompt_time s > max_reaction then
            s\<lparr>lives := lives s - 1,
              last_info_msg := ''Too slow! It was '' @ tg @ ''.'',
              target := None\<rparr>
          else s)"

definition tick :: "real \<Rightarrow> real \<Rightarrow> nat \<Rightarrow> game \<Rightarrow> game" where
  \<comment> \<open>the head of a frame, lines 96 to 106: start a round if needed, then the time-out check\<close>
  "tick max_reaction t r s = check_timeout max_reaction t (start_round t r s)"

definition judge :: "real \<Rightarrow> real \<Rightarrow> string option \<Rightarrow> game \<Rightarrow> game" where
  \<comment> \<open>lines 178 to 190\<close>
  "judge max_reaction t action s =
     (case action of
        None \<Rightarrow> s
      | Some a \<Rightarrow>
         (case target s of
            None \<Rightarrow> s
          | Some tg \<Rightarrow>
              (if t - prompt_time s \<le> max_reaction then
                 (if a = tg then
                    s\<lparr>score := score s + 1,
                      last_info_msg := ''Nice! '' @ a @ '' was correct.''\<rparr>
                  else
                    s\<lparr>lives := lives s - 1,
                      last_info_msg := ''Oops! You pressed '' @ a @ '', it was '' @ tg @ ''.''\<rparr>)
               else
                 s\<lparr>lives := lives s - 1,
                   last_info_msg := ''Too late! You pressed '' @ a @ '', but the timer ran out.''\<rparr>)
              \<lparr>target := None\<rparr>))"

definition prompt_deadline :: "real \<Rightarrow> game \<Rightarrow> real" where
  \<comment> \<open>the code stores the origin of the prompt; the deadline is the origin plus the window\<close>
  "prompt_deadline max_reaction s = prompt_time s + max_reaction"

subsection \<open>Input arbitration\<close>

text \<open>
  An event on the queue is the pair \<open>(etype, payload)\<close> that \<open>serial_reader\<close> puts there.
\<close>

type_synonym event = "string \<times> string"

fun drain :: "event list \<Rightarrow> string option \<Rightarrow> string \<Rightarrow> string option \<times> string" where
  \<comment> \<open>lines 153 to 161: \<open>get_nowait\<close> until the queue is empty; the list is what it returned\<close>
  "drain [] action err = (action, err)"
| "drain ((etype, payload) # q) action err =
     (if etype = ''BTN'' then drain q (Some payload) err
      else if etype = ''ERROR'' then drain q action payload
      else drain q action err)"

definition ord :: "char \<Rightarrow> int" where
  "ord c = int (of_char c)"

text \<open>The key codes of \<open>curses\<close>; \<open>getch\<close> gives \<open>-1\<close> when no key is waiting.\<close>

definition KEY_DOWN :: int where "KEY_DOWN = 258"
definition KEY_UP :: int where "KEY_UP = 259"
definition KEY_LEFT :: int where "KEY_LEFT = 260"
definition KEY_RIGHT :: int where "KEY_RIGHT = 261"

definition keyboard :: "int \<Rightarrow> string option \<Rightarrow> bool \<times> string option" where
  \<comment> \<open>lines 164 to 175; the flag says that the loop breaks, which leaves \<open>action\<close> as it was\<close>
  "keyboard k action =
     (if k \<noteq> - 1 then
        (if k = ord CHR ''q'' \<or> k = ord CHR ''Q'' then (True, action)
         else if k = KEY_UP then (False, Some ''UP'')
         else if k = KEY_DOWN then (False, Some ''DOWN'')
         else if k = KEY_LEFT then (False, Some ''LEFT'')
         else if k = KEY_RIGHT then (False, Some ''RIGHT'')
         else (False, action))
      else (False, action))"

definition poll :: "event list \<Rightarrow> int \<Rightarrow> string \<Rightarrow> bool \<times> string option \<times> string" where
  \<comment> \<open>lines 150 to 175: \<open>action = None\<close>, the drain, then one keyboard read\<close>
  "poll q k err =
     (let (action, err') = drain q None err;
          (quit, action') = keyboard k action
      in (quit, action', err'))"

definition last_button :: "event list \<Rightarrow> string option" where
  \<comment> \<open>the specification's words: the direction of the last Button event in the queue\<close>
  "last_button q =
     (let bs = filter (\<lambda>e. fst e = ''BTN'') q
      in if bs = [] then None else Some (snd (last bs)))"

subsection \<open>The game loop\<close>

record frame_input =
  f_now :: real
  f_draw :: nat
  f_events :: "event list"
  f_key :: int

datatype outcome = Continue game | Break game

fun state_of :: "outcome \<Rightarrow> game" where
  "state_of (Continue s) = s"
| "state_of (Break s) = s"

definition frame :: "real \<Rightarrow> frame_input \<Rightarrow> game \<Rightarrow> outcome" where
  \<comment> \<open>one pass through the body of \<open>while True\<close>, lines 93 to 192\<close>
  "frame max_reaction i s =
     (let t = f_now i;
          s1 = tick max_reaction t (f_draw i) s
      in if lives s1 \<le> 0 then
           (if f_key i = ord CHR ''q'' \<or> f_key i = ord CHR ''Q'' then Break s1 else Continue s1)
         else
           (let (quit, action, err) = poll (f_events i) (f_key i) (last_error_msg s1);
                s2 = s1\<lparr>last_error_msg := err\<rparr>
            in if quit then Break s2 else Continue (judge max_reaction t action s2)))"

fun run_game :: "real \<Rightarrow> frame_input list \<Rightarrow> game \<Rightarrow> outcome" where
  \<comment> \<open>the loop over the frames whose inputs are given; \<open>Continue\<close> when it has not broken yet\<close>
  "run_game max_reaction [] s = Continue s"
| "run_game max_reaction (i # is) s =
     (case frame max_reaction i s of
        Break s' \<Rightarrow> Break s'
      | Continue s' \<Rightarrow> run_game max_reaction is s')"

definition game_inv :: "game \<Rightarrow> bool" where
  "game_inv s = (0 \<le> lives s \<and> (target s \<noteq> None \<longrightarrow> 0 < lives s))"

definition round_one :: game where
  \<comment> \<open>a sample state: round 1 prompts UP at time 10\<close>
  "round_one = \<lparr>score = 0, lives = 3, round_no = 1, target = Some ''UP'', prompt_time = 10,
                last_info_msg = ''Round 1! Press UP!'', last_error_msg = []\<rparr>"

subsection \<open>The reader thread\<close>

text \<open>
  \<open>bytes.decode(errors=...)\<close> for UTF-8, as CPython's codec does it: an invalid start
  byte is an error of one byte, a wrong continuation byte ends an error that covers the
  bytes before it, and a sequence cut off by the end of the input is one error up to the
  end. The handler's text stands for each error: nothing for \<open>"ignore"\<close>, U+FFFD for
  \<open>"replace"\<close>.
\<close>

definition continuation :: "nat \<Rightarrow> bool" where
  "continuation b = (0x80 \<le> b \<and> b < 0xC0)"

fun utf8_decode :: "nat list \<Rightarrow> nat list \<Rightarrow> nat list" where
  "utf8_decode e [] = []"
| "utf8_decode e (b # bs) =
     (if b < 0x80 then b # utf8_decode e bs
      else if b < 0xC2 then e @ utf8_decode e bs
      else if b < 0xE0 then
        (case bs of
           [] \<Rightarrow> e
         | b2 # r2 \<Rightarrow>
             if continuation b2 then ((b - 0xC0) * 64 + (b2 - 0x80)) # utf8_decode e r2
             else e @ utf8_decode e bs)
      else if b < 0xF0 then
        (case bs of
           [] \<Rightarrow> e
         | b2 # r2 \<Rightarrow>
             if \<not> continuation b2 \<or> (b = 0xE0 \<and> b2 < 0xA0) \<or> (b = 0xED \<and> 0xA0 \<le> b2)
             then e @ utf8_decode e bs
             else
               (case r2 of
                  [] \<Rightarrow> e
                | b3 # r3 \<Rightarrow>
                    if continuation b3
                    then ((b - 0xE0) * 4096 + (b2 - 0x80) * 64 + (b3 - 0x80)) # utf8_decode e r3
                    else e @ utf8_decode e r2))
      else if b < 0xF5 then
        (case bs of
           [] \<Rightarrow> e
         | b2 # r2 \<Rightarrow>
             if \<not> continuation b2 \<or> (b = 0xF0 \<and> b2 < 0x90) \<or> (b = 0xF4 \<and> 0x90 \<le> b2)
             then e @ utf8_decode e bs
             else
               (case r2 of
                  [] \<Rightarrow> e
                | b3 # r3 \<Rightarrow>
                    if \<not> continuation b3 then e @ utf8_decode e r2
                    else
                      (case r3 of
                         [] \<Rightarrow> e
                       | b4 # r4 \<Rightarrow>
                           if continuation b4
                           then ((b - 0xF0) * 262144 + (b2 - 0x80) * 4096 + (b3 - 0x80) * 64
                                 + (b4 - 0x80)) # utf8_decode e r4
                           else e @ utf8_decode e r3)))
      else e @ utf8_decode e bs)"

definition upper_cp :: "nat \<Rightarrow> nat list" where
  \<comment> \<open>\<open>str.upper\<close> on one code point: exact on ASCII and on the ten code points beyond
      ASCII whose upper case is ASCII text (U+00DF, U+0131, U+017F, U+FB00 to U+FB06).
      The upper case of every other code point contains a code point beyond ASCII; the code
      point itself stands for it, which is all that a comparison with ASCII text can see.\<close>
  "upper_cp c =
     (if 97 \<le> c \<and> c \<le> 122 then [c - 32]
      else if c = 0xDF then [83, 83]
      else if c = 0x131 then [73]
      else if c = 0x17F then [83]
      else if c = 0xFB00 then [70, 70]
      else if c = 0xFB01 then [70, 73]
      else if c = 0xFB02 then [70, 76]
      else if c = 0xFB03 then [70, 70, 73]
      else if c = 0xFB04 then [70, 70, 76]
      else if c = 0xFB05 \<or> c = 0xFB06 then [83, 84]
      else [c])"

definition upper :: "nat list \<Rightarrow> nat list" where
  "upper text = concat (map upper_cp text)"

definition NL :: char where
  "NL = CHR 0x0A"

definition whitespace :: "char \<Rightarrow> bool" where
  \<comment> \<open>what \<open>bytes.strip()\<close> removes: space, tab, newline, vertical tab, form feed, return\<close>
  "whitespace c = (c \<in> set [CHR 0x20, CHR 0x09, CHR 0x0A, CHR 0x0B, CHR 0x0C, CHR 0x0D])"

definition bytes_strip :: "char list \<Rightarrow> char list" where
  "bytes_strip bs = rev (dropWhile whitespace (rev (dropWhile whitespace bs)))"

definition codepoints :: "string \<Rightarrow> nat list" where
  "codepoints v = map of_char v"

definition valid :: "string list" where
  \<comment> \<open>line 30, a set in the source\<close>
  "valid = [''UP'', ''DOWN'', ''LEFT'', ''RIGHT'']"

definition line_text :: "nat list \<Rightarrow> char list \<Rightarrow> nat list" where
  \<comment> \<open>line 43 with the text of the error handler; the source has \<open>errors="ignore"\<close>\<close>
  "line_text handler line = upper (utf8_decode handler (map of_char (bytes_strip line)))"

definition line_events :: "nat list \<Rightarrow> char list \<Rightarrow> event list" where
  \<comment> \<open>lines 43 to 45\<close>
  "line_events handler line =
     (let text = line_text handler line
      in if text \<in> set (map codepoints valid) then [(''BTN'', map char_of text)] else [])"

function consume_lines :: "char list \<Rightarrow> event list \<times> char list" where
  \<comment> \<open>lines 41 to 45: \<open>buf.split(b"\n", 1)\<close> while a newline is in the buffer\<close>
  "consume_lines buf =
     (if NL \<in> set buf then
        (case consume_lines (tl (dropWhile (\<lambda>c. c \<noteq> NL) buf)) of
           (evs, buf') \<Rightarrow> (line_events [] (takeWhile (\<lambda>c. c \<noteq> NL) buf) @ evs, buf'))
      else ([], buf))"
  by pat_completeness auto

termination
proof (relation "measure length")
  show "wf (measure length)" by simp
next
  fix buf :: "char list"
  assume "NL \<in> set buf"
  then have "dropWhile (\<lambda>c. c \<noteq> NL) buf \<noteq> []"
    by simp
  then have "length (tl (dropWhile (\<lambda>c. c \<noteq> NL) buf)) < length (dropWhile (\<lambda>c. c \<noteq> NL) buf)"
    by simp
  also have "\<dots> \<le> length buf"
    by (rule length_dropWhile_le)
  finally show "(tl (dropWhile (\<lambda>c. c \<noteq> NL) buf), buf) \<in> measure length"
    by simp
qed

declare consume_lines.simps [simp del]

datatype open_result = Opened | OpenFailed string

datatype read_result = Chunk "char list" | ReadFailed string

datatype turn = Stopped | Reads read_result

fun reader_loop :: "turn list \<Rightarrow> char list \<Rightarrow> event list \<times> char list \<times> bool" where
  \<comment> \<open>lines 32 to 47, one turn per test of \<open>stop_event\<close>: the events put on the queue, the
      buffer, and whether the loop has ended within the given turns\<close>
  "reader_loop [] buf = ([], buf, False)"
| "reader_loop (Stopped # ts) buf = ([], buf, True)"
| "reader_loop (Reads (ReadFailed e) # ts) buf =
     ([(''ERROR'', ''Serial read error: '' @ e)], buf, True)"
| "reader_loop (Reads (Chunk data) # ts) buf =
     (if data \<noteq> [] then
        (case consume_lines (buf @ data) of
           (evs, buf') \<Rightarrow>
             (case reader_loop ts buf' of (evs', r) \<Rightarrow> (evs @ evs', r)))
      else reader_loop ts buf)"

definition serial_reader ::
  "bool \<Rightarrow> string \<Rightarrow> open_result \<Rightarrow> turn list \<Rightarrow> event list \<times> bool" where
  \<comment> \<open>lines 18 to 52: the events put on the queue and whether the thread has returned.
      The first argument is \<open>serial is not None\<close>; the exceptions carry their \<open>str\<close>.\<close>
  "serial_reader have_serial port opening turns =
     (if \<not> have_serial then ([], True)
      else
        (case opening of
           OpenFailed e \<Rightarrow> ([(''ERROR'', ''Failed to open serial port '' @ port @ '': '' @ e)], True)
         | Opened \<Rightarrow> (case reader_loop turns [] of (evs, buf, ended) \<Rightarrow> (evs, ended))))"

fun stream_lines :: "char list \<Rightarrow> char list list \<times> char list" where
  \<comment> \<open>the specification's words: the lines that a newline completes, and the partial line
      after the last newline\<close>
  "stream_lines [] = ([], [])"
| "stream_lines (c # cs) =
     (case stream_lines cs of
        (ls, p) \<Rightarrow>
          if c = NL then ([] # ls, p)
          else (case ls of [] \<Rightarrow> ([], c # p) | l # ls' \<Rightarrow> ((c # l) # ls', p)))"

definition spec_events :: "char list list \<Rightarrow> event list" where
  \<comment> \<open>the specification's words for the framer, read with substitution: the completed
      lines of the whole stream, decoded with U+FFFD in place of each invalid sequence\<close>
  "spec_events chunks = concat (map (line_events [0xFFFD]) (fst (stream_lines (concat chunks))))"

subsection \<open>Sample inputs\<close>

text \<open>A sample run: one correct answer, then three rounds that time out.\<close>

definition fi :: "real \<Rightarrow> nat \<Rightarrow> event list \<Rightarrow> int \<Rightarrow> frame_input" where
  "fi t r q k = \<lparr>f_now = t, f_draw = r, f_events = q, f_key = k\<rparr>"

definition sample_frames :: "frame_input list" where
  "sample_frames =
     [fi 0 0 [] (- 1), fi (3/10) 0 [] KEY_UP, fi (31/100) 1 [] (- 1), fi 2 0 [] (- 1),
      fi (202/100) 2 [] (- 1), fi 4 0 [] (- 1), fi (402/100) 3 [] (- 1),
      fi 6 0 [(''ERROR'', ''Serial read error: gone'')] (- 1)]"

definition game_over_state :: game where
  "game_over_state = \<lparr>score = 1, lives = 0, round_no = 4, target = None, prompt_time = 402/100,
     last_info_msg = ''Too slow! It was RIGHT.'', last_error_msg = []\<rparr>"

section \<open>Properties\<close>

subsection \<open>Auxiliary facts\<close>

lemma random_choice_directions: "random_choice r directions \<in> set directions"
  unfolding random_choice_def by (rule nth_mem) (simp add: directions_def)

lemma drain_last_button:
  "fst (drain q action err) = (case last_button q of None \<Rightarrow> action | Some d \<Rightarrow> Some d)"
  by (induction q action err rule: drain.induct)
     (auto simp add: last_button_def Let_def)

text \<open>The lives never go below 0, and a target is only set while a life is left.\<close>

lemma initial_inv: "game_inv (initial e)"
  by (simp add: game_inv_def initial_def)

lemma start_round_inv: "game_inv s \<Longrightarrow> game_inv (start_round t r s)"
  by (simp add: game_inv_def start_round_def Let_def)

lemma check_timeout_inv: "game_inv s \<Longrightarrow> game_inv (check_timeout m t s)"
  by (auto simp add: game_inv_def check_timeout_def split: option.splits)

lemma tick_inv: "game_inv s \<Longrightarrow> game_inv (tick m t r s)"
  by (simp add: tick_def start_round_inv check_timeout_inv)

lemma judge_inv: "game_inv s \<Longrightarrow> game_inv (judge m t a s)"
  by (auto simp add: game_inv_def judge_def split: option.splits)

lemma error_msg_inv: "game_inv s \<Longrightarrow> game_inv (s\<lparr>last_error_msg := e\<rparr>)"
  by (simp add: game_inv_def)

lemma frame_inv: "game_inv s \<Longrightarrow> game_inv (state_of (frame m i s))"
  by (simp add: frame_def Let_def tick_inv judge_inv error_msg_inv split: prod.splits)

lemma run_game_inv: "game_inv s \<Longrightarrow> game_inv (state_of (run_game m is s))"
proof (induction "is" arbitrary: s)
  case Nil
  then show ?case by simp
next
  case (Cons i "is")
  from Cons.prems have inv: "game_inv (state_of (frame m i s))"
    by (rule frame_inv)
  show ?case
  proof (cases "frame m i s")
    case (Continue s')
    with inv have "game_inv s'" by simp
    then have "game_inv (state_of (run_game m is s'))" by (rule Cons.IH)
    with Continue show ?thesis by simp
  next
    case (Break s')
    with inv show ?thesis by simp
  qed
qed

lemma tick_game_over: "game_inv s \<Longrightarrow> lives s = 0 \<Longrightarrow> tick m t r s = s"
  by (auto simp add: game_inv_def tick_def start_round_def check_timeout_def split: option.splits)

lemma judge_game_over: "game_inv s \<Longrightarrow> lives s = 0 \<Longrightarrow> judge m t a s = s"
  by (auto simp add: game_inv_def judge_def split: option.splits)

lemma frame_game_over:
  "game_inv s \<Longrightarrow> lives s = 0 \<Longrightarrow>
   frame m i s = (if f_key i = ord CHR ''q'' \<or> f_key i = ord CHR ''Q'' then Break s else Continue s)"
  by (simp add: frame_def Let_def tick_game_over)

lemma run_game_game_over:
  "game_inv s \<Longrightarrow> lives s = 0 \<Longrightarrow>
   run_game m is s =
     (if \<exists>i \<in> set is. f_key i = ord CHR ''q'' \<or> f_key i = ord CHR ''Q'' then Break s
      else Continue s)"
  by (induction "is") (auto simp add: frame_game_over)

lemma tick_lives: "lives (tick m t r s) = lives s \<or> lives (tick m t r s) = lives s - 1"
  by (simp add: tick_def start_round_def check_timeout_def Let_def split: option.splits)

lemma tick_lost_target: "lives (tick m t r s) \<noteq> lives s \<Longrightarrow> target (tick m t r s) = None"
  by (simp add: tick_def start_round_def check_timeout_def Let_def split: option.splits if_splits)

lemma judge_lives: "lives (judge m t a s) = lives s \<or> lives (judge m t a s) = lives s - 1"
  by (simp add: judge_def split: option.splits)

lemma judge_no_target: "target s = None \<Longrightarrow> judge m t a s = s"
  by (simp add: judge_def split: option.splits)

lemma frame_lives:
  "lives (state_of (frame m i s)) = lives (tick m (f_now i) (f_draw i) s) \<or>
   (lives (tick m (f_now i) (f_draw i) s) = lives s \<and>
    lives (state_of (frame m i s)) = lives s - 1)"
proof -
  let ?s1 = "tick m (f_now i) (f_draw i) s"
  show ?thesis
  proof (cases "lives ?s1 \<le> 0")
    case True
    then show ?thesis by (simp add: frame_def Let_def)
  next
    case False
    obtain quit action err where p: "poll (f_events i) (f_key i) (last_error_msg ?s1) = (quit, action, err)"
      by (cases "poll (f_events i) (f_key i) (last_error_msg ?s1)") auto
    let ?s2 = "?s1\<lparr>last_error_msg := err\<rparr>"
    show ?thesis
    proof (cases quit)
      case True
      with False p show ?thesis by (simp add: frame_def Let_def)
    next
      case q: False
      have f: "state_of (frame m i s) = judge m (f_now i) action ?s2"
        using False p q by (simp add: frame_def Let_def)
      show ?thesis
      proof (cases "lives ?s1 = lives s")
        case True
        with judge_lives [of m "f_now i" action ?s2] f show ?thesis by auto
      next
        case False
        then have "target ?s2 = None" by (simp add: tick_lost_target)
        then have "judge m (f_now i) action ?s2 = ?s2" by (rule judge_no_target)
        with f show ?thesis by simp
      qed
    qed
  qed
qed

text \<open>The loop over the buffer against the lines of the whole stream.\<close>

lemma stream_lines_no_newline: "NL \<notin> set bs \<Longrightarrow> stream_lines bs = ([], bs)"
  by (induction bs) auto

lemma stream_lines_first:
  "NL \<notin> set xs \<Longrightarrow>
   stream_lines (xs @ NL # ys) = (xs # fst (stream_lines ys), snd (stream_lines ys))"
  by (induction xs) (auto split: prod.splits)

lemma split_at_newline:
  "NL \<in> set buf \<Longrightarrow>
   buf = takeWhile (\<lambda>c. c \<noteq> NL) buf @ NL # tl (dropWhile (\<lambda>c. c \<noteq> NL) buf)"
proof -
  assume "NL \<in> set buf"
  then have ne: "dropWhile (\<lambda>c. c \<noteq> NL) buf \<noteq> []"
    by simp
  then have "hd (dropWhile (\<lambda>c. c \<noteq> NL) buf) = NL"
    using hd_dropWhile [of "\<lambda>c. c \<noteq> NL" buf] by simp
  with ne have "dropWhile (\<lambda>c. c \<noteq> NL) buf = NL # tl (dropWhile (\<lambda>c. c \<noteq> NL) buf)"
    by (cases "dropWhile (\<lambda>c. c \<noteq> NL) buf") simp_all
  then show ?thesis
    using takeWhile_dropWhile_id [of "\<lambda>c. c \<noteq> NL" buf] by simp
qed

lemma takeWhile_no_newline: "NL \<notin> set (takeWhile (\<lambda>c. c \<noteq> NL) buf)"
  using set_takeWhileD [of NL "\<lambda>c. c \<noteq> NL" buf] by blast

lemma consume_lines_stream:
  "consume_lines buf =
     (concat (map (line_events []) (fst (stream_lines buf))), snd (stream_lines buf))"
proof (induction buf rule: consume_lines.induct)
  case (1 buf)
  show ?case
  proof (cases "NL \<in> set buf")
    case False
    then show ?thesis
      by (simp add: consume_lines.simps [of buf] stream_lines_no_newline)
  next
    case True
    let ?l = "takeWhile (\<lambda>c. c \<noteq> NL) buf" and ?r = "tl (dropWhile (\<lambda>c. c \<noteq> NL) buf)"
    have "stream_lines buf = stream_lines (?l @ NL # ?r)"
      using split_at_newline [OF True] by simp
    also have "\<dots> = (?l # fst (stream_lines ?r), snd (stream_lines ?r))"
      by (rule stream_lines_first) (rule takeWhile_no_newline)
    finally have s: "stream_lines buf = (?l # fst (stream_lines ?r), snd (stream_lines ?r))" .
    from True "1.IH" show ?thesis
      by (simp add: consume_lines.simps [of buf] s)
  qed
qed

lemma partial_no_newline: "NL \<notin> set (snd (stream_lines bs))"
  by (induction bs) (auto split: prod.splits list.splits)

lemma stream_lines_append:
  "stream_lines (xs @ ys) =
     (fst (stream_lines xs) @ fst (stream_lines (snd (stream_lines xs) @ ys)),
      snd (stream_lines (snd (stream_lines xs) @ ys)))"
  by (induction xs) (auto split: prod.splits list.splits)

lemma reader_loop_chunks:
  "NL \<notin> set buf \<Longrightarrow>
   reader_loop (map (\<lambda>d. Reads (Chunk d)) chunks) buf =
     (concat (map (line_events []) (fst (stream_lines (buf @ concat chunks)))),
      snd (stream_lines (buf @ concat chunks)), False)"
proof (induction chunks arbitrary: buf)
  case Nil
  then show ?case by (simp add: stream_lines_no_newline)
next
  case (Cons d chunks)
  show ?case
  proof (cases "d = []")
    case True
    with Cons show ?thesis by simp
  next
    case False
    let ?p = "snd (stream_lines (buf @ d))"
    have "NL \<notin> set ?p" by (rule partial_no_newline)
    then have ih: "reader_loop (map (\<lambda>d. Reads (Chunk d)) chunks) ?p =
       (concat (map (line_events []) (fst (stream_lines (?p @ concat chunks)))),
        snd (stream_lines (?p @ concat chunks)), False)"
      by (rule Cons.IH)
    have app: "stream_lines ((buf @ d) @ concat chunks) =
       (fst (stream_lines (buf @ d)) @ fst (stream_lines (?p @ concat chunks)),
        snd (stream_lines (?p @ concat chunks)))"
      by (rule stream_lines_append)
    from False show ?thesis
      using app by (simp add: consume_lines_stream ih)
  qed
qed

lemma map_char_of_codepoints: "map char_of (codepoints v) = v"
  by (simp add: codepoints_def comp_def)

lemma line_events_cases:
  "line_events h line =
     (if line_text h line = codepoints ''UP'' then [(''BTN'', ''UP'')]
      else if line_text h line = codepoints ''DOWN'' then [(''BTN'', ''DOWN'')]
      else if line_text h line = codepoints ''LEFT'' then [(''BTN'', ''LEFT'')]
      else if line_text h line = codepoints ''RIGHT'' then [(''BTN'', ''RIGHT'')]
      else [])"
  by (simp add: line_events_def valid_def Let_def map_char_of_codepoints)

subsection \<open>The claims\<close>

text \<open>
  C1. With a target set and the judgment time within the reaction window
  (\<open>t - prompt_time s \<le> max_reaction\<close>), judging an action that equals the target adds
  exactly 1 to the score and leaves the lives; judging one that differs takes exactly 1
  from the lives and leaves the score; both clear the target. With no target set, judging
  changes nothing.
\<close>

theorem judge_in_window:
  "(target s = Some tg \<and> t - prompt_time s \<le> max_reaction \<longrightarrow>
      (let s' = judge max_reaction t (Some tg) s
       in score s' = score s + 1 \<and> lives s' = lives s \<and> target s' = None) \<and>
      (a \<noteq> tg \<longrightarrow>
        (let s' = judge max_reaction t (Some a) s
         in lives s' = lives s - 1 \<and> score s' = score s \<and> target s' = None))) \<and>
   (target s = None \<longrightarrow> judge max_reaction t action s = s)"
  by (cases action) (simp_all add: judge_def Let_def)

theorem judge_in_window_witness:
  "score (judge (3/2) (103/10) (Some ''UP'') round_one) = 1 \<and>
   lives (judge (3/2) (103/10) (Some ''UP'') round_one) = 3 \<and>
   target (judge (3/2) (103/10) (Some ''UP'') round_one) = None \<and>
   lives (judge (3/2) (103/10) (Some ''DOWN'') round_one) = 2 \<and>
   score (judge (3/2) (103/10) (Some ''DOWN'') round_one) = 0 \<and>
   target (judge (3/2) (103/10) (Some ''DOWN'') round_one) = None \<and>
   judge (3/2) (103/10) (Some ''UP'') (initial []) = initial []"
  using judge_in_window [of round_one "''UP''" "103/10" "3/2" "''DOWN''" "Some ''UP''"]
    judge_in_window [of "initial []" "''UP''" "103/10" "3/2" "''DOWN''" "Some ''UP''"]
  by (simp add: round_one_def initial_def Let_def)

text \<open>
  C2. With a target set, a tick at a time strictly after the prompt deadline takes exactly
  one life and clears the target. When a life is left after that, the tick that follows
  starts a new round (lines 96 to 100); its time-out check leaves the new round alone when
  the reaction window is not negative. The comparison is strict: at exactly the deadline
  the tick changes nothing, and \<open>judge\<close> still treats the action as in the window (a
  correct one scores, a wrong one is answered with the in-window message).
\<close>

theorem tick_timeout:
  "target s = Some tg \<longrightarrow>
     (t > prompt_deadline max_reaction s \<longrightarrow>
        lives (tick max_reaction t r s) = lives s - 1 \<and>
        target (tick max_reaction t r s) = None \<and>
        (1 < lives s \<longrightarrow>
           (let s' = start_round t' r' (tick max_reaction t r s)
            in target s' = Some (random_choice r' directions) \<and>
               round_no s' = round_no s + 1 \<and> prompt_time s' = t' \<and>
               lives s' = lives s - 1 \<and>
               (0 \<le> max_reaction \<longrightarrow> tick max_reaction t' r' (tick max_reaction t r s) = s')))) \<and>
     (t = prompt_deadline max_reaction s \<longrightarrow>
        tick max_reaction t r s = s \<and>
        judge max_reaction t (Some tg) s =
          s\<lparr>score := score s + 1, last_info_msg := ''Nice! '' @ tg @ '' was correct.'',
            target := None\<rparr> \<and>
        (a \<noteq> tg \<longrightarrow>
           judge max_reaction t (Some a) s =
             s\<lparr>lives := lives s - 1,
               last_info_msg := ''Oops! You pressed '' @ a @ '', it was '' @ tg @ ''.'',
               target := None\<rparr>))"
  by (auto simp add: tick_def start_round_def check_timeout_def prompt_deadline_def judge_def
      Let_def)

theorem tick_timeout_witness:
  "lives (tick (3/2) 12 0 round_one) = 2 \<and>
   target (tick (3/2) 12 0 round_one) = None \<and>
   target (tick (3/2) 12 1 (tick (3/2) 12 0 round_one)) = Some ''DOWN'' \<and>
   round_no (tick (3/2) 12 1 (tick (3/2) 12 0 round_one)) = 2 \<and>
   tick (3/2) (23/2) 0 round_one = round_one \<and>
   score (judge (3/2) (23/2) (Some ''UP'') round_one) = 1 \<and>
   lives (judge (3/2) (23/2) (Some ''UP'') round_one) = 3 \<and>
   lives (judge (3/2) (23/2) (Some ''DOWN'') round_one) = 2"
  using tick_timeout [where s = round_one and tg = "''UP''" and t = 12 and max_reaction = "3/2"
      and r = 0 and t' = 12 and r' = 1 and a = "''DOWN''"]
    tick_timeout [where s = round_one and tg = "''UP''" and t = "23/2" and max_reaction = "3/2"
      and r = 0 and t' = 12 and r' = 1 and a = "''DOWN''"]
  by (simp add: round_one_def prompt_deadline_def Let_def random_choice_def directions_def)

text \<open>
  C3. In a state with no target and \<open>lives > 0\<close> the round start of a tick (lines 96 to
  100) starts exactly one round: \<open>round_no\<close> grows by exactly 1, the target becomes one of
  UP, DOWN, LEFT, RIGHT, and the prompt deadline is the time of the tick plus the reaction
  window. With a reaction window that is not negative this is the state after the whole
  tick: the time-out check that follows in the same frame does not fire.
\<close>

theorem tick_starts_round:
  "target s = None \<and> lives s > 0 \<longrightarrow>
     (let s' = start_round t r s
      in round_no s' = round_no s + 1 \<and>
         target s' = Some (random_choice r directions) \<and>
         random_choice r directions \<in> {''UP'', ''DOWN'', ''LEFT'', ''RIGHT''} \<and>
         prompt_deadline max_reaction s' = t + max_reaction \<and>
         lives s' = lives s \<and> score s' = score s \<and>
         (0 \<le> max_reaction \<longrightarrow> tick max_reaction t r s = s'))"
proof -
  have "random_choice r directions \<in> set directions"
    by (rule random_choice_directions)
  then have "random_choice r directions \<in> {''UP'', ''DOWN'', ''LEFT'', ''RIGHT''}"
    by (simp add: directions_def)
  then show ?thesis
    by (simp add: tick_def start_round_def check_timeout_def prompt_deadline_def Let_def)
qed

theorem tick_starts_round_witness:
  "round_no (tick (3/2) 10 6 (initial [])) = 1 \<and>
   target (tick (3/2) 10 6 (initial [])) = Some ''LEFT'' \<and>
   prompt_deadline (3/2) (tick (3/2) 10 6 (initial [])) = 23/2 \<and>
   lives (tick (3/2) 10 6 (initial [])) = 3"
  using tick_starts_round [where s = "initial []" and max_reaction = "3/2" and t = 10 and r = 6]
  by (simp add: initial_def Let_def random_choice_def directions_def)

text \<open>
  C5. One poll of the arbiter leaves as candidate action: the direction of the key when the
  keyboard read gives an arrow key, whatever is queued; otherwise the direction of the last
  Button event of the queue; otherwise nothing. Among Button events the last one queued
  wins: appending a Button event makes it the last, appending any other event changes
  nothing. On \<open>q\<close> or \<open>Q\<close>, and only then, the loop breaks and the candidate is never
  judged.
\<close>

theorem poll_precedence:
  "fst (snd (poll q k err)) =
     (if k = KEY_UP then Some ''UP''
      else if k = KEY_DOWN then Some ''DOWN''
      else if k = KEY_LEFT then Some ''LEFT''
      else if k = KEY_RIGHT then Some ''RIGHT''
      else last_button q) \<and>
   last_button [] = None \<and>
   last_button (q @ [(''BTN'', d)]) = Some d \<and>
   (fst e \<noteq> ''BTN'' \<longrightarrow> last_button (q @ [e]) = last_button q) \<and>
   fst (snd (poll [(''BTN'', ''UP''), (''BTN'', ''LEFT'')] (- 1) err)) = Some ''LEFT'' \<and>
   fst (snd (poll [(''BTN'', ''UP'')] KEY_DOWN err)) = Some ''DOWN'' \<and>
   fst (poll q k err) = (k = ord CHR ''q'' \<or> k = ord CHR ''Q'')"
proof -
  have d: "fst (drain q None err) = last_button q" for q
    by (simp add: drain_last_button split: option.splits)
  have k: "snd (keyboard k action) =
     (if k = KEY_UP then Some ''UP''
      else if k = KEY_DOWN then Some ''DOWN''
      else if k = KEY_LEFT then Some ''LEFT''
      else if k = KEY_RIGHT then Some ''RIGHT''
      else action)" for action
    by (simp add: keyboard_def ord_def KEY_UP_def KEY_DOWN_def KEY_LEFT_def KEY_RIGHT_def)
  have p: "fst (snd (poll q k err)) = snd (keyboard k (fst (drain q None err)))" for q k
    by (simp add: poll_def split: prod.splits)
  have "fst (snd (poll q k err)) =
     (if k = KEY_UP then Some ''UP''
      else if k = KEY_DOWN then Some ''DOWN''
      else if k = KEY_LEFT then Some ''LEFT''
      else if k = KEY_RIGHT then Some ''RIGHT''
      else last_button q)"
    unfolding p d k ..
  moreover have "last_button [] = None"
    by (simp add: last_button_def)
  moreover have "last_button (q @ [(''BTN'', d)]) = Some d"
    by (simp add: last_button_def)
  moreover have "fst e \<noteq> ''BTN'' \<longrightarrow> last_button (q @ [e]) = last_button q"
    by (simp add: last_button_def)
  moreover have "fst (snd (poll [(''BTN'', ''UP''), (''BTN'', ''LEFT'')] (- 1) err)) = Some ''LEFT''"
    by (simp add: poll_def keyboard_def)
  moreover have "fst (snd (poll [(''BTN'', ''UP'')] KEY_DOWN err)) = Some ''DOWN''"
    by (simp add: poll_def keyboard_def ord_def KEY_UP_def KEY_DOWN_def)
  moreover have "fst (poll q k err) = (k = ord CHR ''q'' \<or> k = ord CHR ''Q'')"
    by (simp add: poll_def keyboard_def ord_def KEY_UP_def KEY_DOWN_def KEY_LEFT_def
        KEY_RIGHT_def split: prod.splits)
  ultimately show ?thesis by simp
qed

theorem poll_precedence_witness:
  "fst (snd (poll [(''BTN'', ''UP''), (''BTN'', ''LEFT''), (''ERROR'', ''x'')] (- 1) [])) = Some ''LEFT'' \<and>
   fst (snd (poll [(''BTN'', ''UP''), (''BTN'', ''LEFT''), (''ERROR'', ''x'')] 258 [])) = Some ''DOWN''"
  using poll_precedence [where q = "[(''BTN'', ''UP''), (''BTN'', ''LEFT''), (''ERROR'', ''x'')]"
      and k = "- 1" and err = "[]" and e = "(''ERROR'', ''x'')" and d = "''LEFT''"]
    poll_precedence [where q = "[(''BTN'', ''UP''), (''BTN'', ''LEFT''), (''ERROR'', ''x'')]"
      and k = "258" and err = "[]" and e = "(''ERROR'', ''x'')" and d = "''LEFT''"]
  by (simp add: last_button_def KEY_UP_def KEY_DOWN_def KEY_LEFT_def KEY_RIGHT_def)

text \<open>
  C6. When an action is judged with the target still set and the reaction window already
  over (\<open>t - prompt_time s > max_reaction\<close>), exactly one life is taken whatever the action
  is, and the target is cleared.
\<close>

theorem judge_too_late:
  "target s = Some tg \<and> t - prompt_time s > max_reaction \<longrightarrow>
     (let s' = judge max_reaction t (Some a) s
      in lives s' = lives s - 1 \<and> target s' = None \<and> score s' = score s \<and>
         last_info_msg s' = ''Too late! You pressed '' @ a @ '', but the timer ran out.'')"
  by (simp add: judge_def Let_def)

theorem judge_too_late_witness:
  "lives (judge (3/2) 12 (Some ''UP'') round_one) = 2 \<and>
   lives (judge (3/2) 12 (Some ''DOWN'') round_one) = 2 \<and>
   target (judge (3/2) 12 (Some ''UP'') round_one) = None \<and>
   score (judge (3/2) 12 (Some ''UP'') round_one) = 0"
  using judge_too_late [of round_one "''UP''" "3/2" 12 "''UP''"]
    judge_too_late [of round_one "''UP''" "3/2" 12 "''DOWN''"]
  by (simp add: round_one_def Let_def)

text \<open>
  C9. A tick in a state whose target is set and not yet expired (the time is at most the
  prompt deadline), with \<open>lives > 0\<close>, changes nothing: target, \<open>round_no\<close> and lives
  stay as they are.
\<close>

theorem tick_idempotent:
  "target s = Some tg \<and> t \<le> prompt_deadline max_reaction s \<and> lives s > 0 \<longrightarrow>
     tick max_reaction t r s = s"
  by (auto simp add: tick_def start_round_def check_timeout_def prompt_deadline_def)

theorem tick_idempotent_witness:
  "tick (3/2) 11 0 round_one = round_one \<and> tick (3/2) (23/2) 2 round_one = round_one"
  using tick_idempotent [of round_one "''UP''" 11 "3/2" 0]
    tick_idempotent [of round_one "''UP''" "23/2" "3/2" 2]
  by (simp add: round_one_def prompt_deadline_def)

text \<open>
  C4. A state with \<open>lives = 0\<close> that the game reaches is terminal: a tick and a judge
  call leave the whole state (so \<open>round_no\<close>, score, lives and target) as it is, a frame
  does nothing but read one key, and the loop goes on unchanged until that key is \<open>q\<close> or
  \<open>Q\<close>, which breaks it; queued events and other keys are not looked at.
\<close>

theorem game_over_terminal:
  "run_game max_reaction frames (initial e) = Continue s \<and> lives s = 0 \<longrightarrow>
     tick max_reaction t r s = s \<and>
     judge max_reaction t action s = s \<and>
     frame max_reaction i s =
       (if f_key i = ord CHR ''q'' \<or> f_key i = ord CHR ''Q'' then Break s else Continue s) \<and>
     run_game max_reaction later s =
       (if \<exists>j \<in> set later. f_key j = ord CHR ''q'' \<or> f_key j = ord CHR ''Q'' then Break s
        else Continue s)"
proof (intro impI, elim conjE)
  assume run: "run_game max_reaction frames (initial e) = Continue s" and zero: "lives s = 0"
  have "game_inv (state_of (run_game max_reaction frames (initial e)))"
    by (rule run_game_inv) (rule initial_inv)
  with run have inv: "game_inv s" by simp
  from inv zero show "tick max_reaction t r s = s \<and>
     judge max_reaction t action s = s \<and>
     frame max_reaction i s =
       (if f_key i = ord CHR ''q'' \<or> f_key i = ord CHR ''Q'' then Break s else Continue s) \<and>
     run_game max_reaction later s =
       (if \<exists>j \<in> set later. f_key j = ord CHR ''q'' \<or> f_key j = ord CHR ''Q'' then Break s
        else Continue s)"
    by (simp only: tick_game_over judge_game_over frame_game_over run_game_game_over simp_thms)
qed

theorem game_over_terminal_witness:
  "run_game (3/2) sample_frames (initial []) = Continue game_over_state \<and>
   lives game_over_state = 0 \<and>
   tick (3/2) 7 0 game_over_state = game_over_state \<and>
   judge (3/2) 7 (Some ''UP'') game_over_state = game_over_state \<and>
   frame (3/2) (fi 7 0 [(''BTN'', ''UP'')] KEY_UP) game_over_state = Continue game_over_state \<and>
   frame (3/2) (fi 7 0 [] (ord CHR ''q'')) game_over_state = Break game_over_state"
proof -
  have run: "run_game (3/2) sample_frames (initial []) = Continue game_over_state"
    by code_simp
  have zero: "lives game_over_state = 0"
    by (simp add: game_over_state_def)
  show ?thesis
    using run zero
      game_over_terminal [where max_reaction = "3/2" and frames = sample_frames and e = "[]"
        and s = game_over_state and t = 7 and r = 0 and action = "Some ''UP''"
        and i = "fi 7 0 [(''BTN'', ''UP'')] KEY_UP" and later = "[]"]
      game_over_terminal [where max_reaction = "3/2" and frames = sample_frames and e = "[]"
        and s = game_over_state and t = 7 and r = 0 and action = "Some ''UP''"
        and i = "fi 7 0 [] (ord CHR ''q'')" and later = "[]"]
    by (simp add: fi_def KEY_UP_def ord_def)
qed

text \<open>
  C10. In every state the game reaches the lives are at least 0, also after the tick of a
  frame and at the end of it. A frame takes at most one life: when the time-out check of
  the tick took one, the judgment of the same frame takes none (the tick has cleared the
  target, and both use the same time). Once the lives are 0 they stay 0.
\<close>

theorem lives_bounds:
  "(let s = state_of (run_game max_reaction frames (initial e));
        s1 = tick max_reaction (f_now i) (f_draw i) s;
        s' = state_of (frame max_reaction i s)
    in 0 \<le> lives s \<and> 0 \<le> lives s1 \<and> 0 \<le> lives s' \<and>
       (lives s' = lives s \<or> lives s' = lives s - 1) \<and>
       (lives s1 \<noteq> lives s \<longrightarrow> lives s1 = lives s - 1 \<and> lives s' = lives s1) \<and>
       (lives s = 0 \<longrightarrow> lives s1 = 0 \<and> lives s' = 0))"
proof -
  let ?s = "state_of (run_game max_reaction frames (initial e))"
  let ?s1 = "tick max_reaction (f_now i) (f_draw i) ?s"
  let ?s' = "state_of (frame max_reaction i ?s)"
  have inv: "game_inv ?s"
    by (rule run_game_inv) (rule initial_inv)
  then have inv1: "game_inv ?s1" by (rule tick_inv)
  from inv have inv': "game_inv ?s'" by (rule frame_inv)
  have a: "0 \<le> lives ?s" "0 \<le> lives ?s1" "0 \<le> lives ?s'"
    using inv inv1 inv' by (simp_all add: game_inv_def)
  have b: "lives ?s1 = lives ?s \<or> lives ?s1 = lives ?s - 1"
    by (rule tick_lives)
  have c: "lives ?s' = lives ?s1 \<or> (lives ?s1 = lives ?s \<and> lives ?s' = lives ?s - 1)"
    by (rule frame_lives)
  from a b c show ?thesis
    unfolding Let_def by auto
qed

theorem lives_bounds_witness:
  "lives (tick (3/2) 2 0 (state_of (run_game (3/2) (take 3 sample_frames) (initial [])))) \<noteq>
     lives (state_of (run_game (3/2) (take 3 sample_frames) (initial []))) \<and>
   lives (state_of (frame (3/2) (fi 2 0 [(''BTN'', ''UP'')] (- 1))
     (state_of (run_game (3/2) (take 3 sample_frames) (initial []))))) =
     lives (state_of (run_game (3/2) (take 3 sample_frames) (initial []))) - 1 \<and>
   lives (state_of (run_game (3/2) sample_frames (initial []))) = 0 \<and>
   lives (state_of (frame (3/2) (fi 7 0 [(''BTN'', ''UP'')] KEY_UP)
     (state_of (run_game (3/2) sample_frames (initial []))))) = 0"
proof -
  have fired: "lives (tick (3/2) 2 0 (state_of (run_game (3/2) (take 3 sample_frames) (initial [])))) \<noteq>
     lives (state_of (run_game (3/2) (take 3 sample_frames) (initial [])))"
    by code_simp
  have zero: "lives (state_of (run_game (3/2) sample_frames (initial []))) = 0"
    by code_simp
  show ?thesis
    using fired zero
      lives_bounds [where max_reaction = "3/2" and frames = "take 3 sample_frames" and e = "[]"
        and i = "fi 2 0 [(''BTN'', ''UP'')] (- 1)"]
      lives_bounds [where max_reaction = "3/2" and frames = sample_frames and e = "[]"
        and i = "fi 7 0 [(''BTN'', ''UP'')] KEY_UP"]
    by (simp add: Let_def fi_def)
qed

text \<open>
  C7. When the open attempt fails, the reader thread puts exactly one ERROR event on the
  queue and returns: whatever the device or the stop flag would do afterwards, there is no
  second event, no retry and no button event.
\<close>

theorem open_failure:
  "serial_reader True port (OpenFailed e) turns =
     ([(''ERROR'', ''Failed to open serial port '' @ port @ '': '' @ e)], True)"
  by (simp add: serial_reader_def)

text \<open>
  C8, as stated: the tokens are the completed lines that equal a direction after trimming,
  lenient decoding with invalid encoding substituted, and upper-casing. The source decodes
  with \<open>errors="ignore"\<close>, which drops the invalid bytes: the line \<open>U\<close>, byte FF, \<open>P\<close>
  yields the token UP, where the substituting decoder gives a text that is no direction.
\<close>

theorem framer_substitution_counterexample:
  "fst (reader_loop [Reads (Chunk (''U'' @ [CHR 0xFF] @ ''P'' @ [NL]))] []) \<noteq>
     spec_events [''U'' @ [CHR 0xFF] @ ''P'' @ [NL]] \<and>
   fst (reader_loop [Reads (Chunk (''U'' @ [CHR 0xFF] @ ''P'' @ [NL]))] []) = [(''BTN'', ''UP'')] \<and>
   spec_events [''U'' @ [CHR 0xFF] @ ''P'' @ [NL]] = []"
  by (simp add: consume_lines_stream spec_events_def line_events_cases line_text_def upper_def
      upper_cp_def bytes_strip_def whitespace_def NL_def codepoints_def continuation_def)

text \<open>
  C8, amended: for every sequence of chunks read with an empty buffer at the start, the
  events put on the queue are, in order, the Button events of exactly those completed
  lines of the whole stream that equal UP, DOWN, LEFT or RIGHT after trimming the
  surrounding whitespace, decoding with the invalid bytes dropped, and upper-casing; every
  other line yields nothing; the partial line after the last newline stays in the buffer.
\<close>

theorem framer_tokens:
  "reader_loop (map (\<lambda>d. Reads (Chunk d)) chunks) [] =
     (concat (map (line_events []) (fst (stream_lines (concat chunks)))),
      snd (stream_lines (concat chunks)), False) \<and>
   line_events [] line =
     (if upper (utf8_decode [] (map of_char (bytes_strip line))) = codepoints ''UP''
      then [(''BTN'', ''UP'')]
      else if upper (utf8_decode [] (map of_char (bytes_strip line))) = codepoints ''DOWN''
      then [(''BTN'', ''DOWN'')]
      else if upper (utf8_decode [] (map of_char (bytes_strip line))) = codepoints ''LEFT''
      then [(''BTN'', ''LEFT'')]
      else if upper (utf8_decode [] (map of_char (bytes_strip line))) = codepoints ''RIGHT''
      then [(''BTN'', ''RIGHT'')]
      else [])"
  using reader_loop_chunks [of "[]" chunks] line_events_cases [of "[]" line]
  by (simp add: line_text_def)

theorem framer_tokens_witness:
  "reader_loop (map (\<lambda>d. Reads (Chunk d))
      [''up'' @ [NL] @ '' Le'', [], ''ft'' @ [CHR 0x0D, NL] @ ''foo'' @ [NL] @ ''rig'']) [] =
     ([(''BTN'', ''UP''), (''BTN'', ''LEFT'')], ''rig'', False) \<and>
   line_events [] (''r'' @ [CHR 0xC4, CHR 0xB1] @ ''ght'') = [(''BTN'', ''RIGHT'')]"
  using framer_tokens [where chunks = "[''up'' @ [NL] @ '' Le'', [], ''ft'' @ [CHR 0x0D, NL] @ ''foo'' @ [NL] @ ''rig'']"
      and line = "''r'' @ [CHR 0xC4, CHR 0xB1] @ ''ght''"]
  by (simp add: line_events_cases line_text_def upper_def
      upper_cp_def bytes_strip_def whitespace_def NL_def codepoints_def continuation_def)

end
